theory Spec2Isabelle
  imports Complex_Main
begin

section \<open>Numbers, arrays and buffers of the MakeCode runtime\<close>

text \<open>
  The driver is TypeScript. A \<open>number\<close> is an IEEE double; every value the driver computes
  is an integer or a multiple of \<open>1/16\<close> far below \<open>2^53\<close>, where double arithmetic is
  exact, so integers are modelled by \<open>int\<close> and the two quotients \<open>length / 16\<close> by \<open>rat\<close>.
  An element of a \<open>number[]\<close> can also be \<open>NaN\<close> (\<open>charCodeAt\<close> past the end of the string)
  or \<open>undefined\<close> (an array read past the end); both are \<open>None\<close> here: they propagate
  through arithmetic in the same way and are both stored as the byte \<open>0\<close> in a buffer.
\<close>

type_synonym number = "int option"

definition num_add :: "number \<Rightarrow> number \<Rightarrow> number" where
  "num_add a b = (case a of None \<Rightarrow> None | Some x \<Rightarrow> (case b of None \<Rightarrow> None | Some y \<Rightarrow> Some (x + y)))"

definition num_sub :: "number \<Rightarrow> number \<Rightarrow> number" where
  "num_sub a b = (case a of None \<Rightarrow> None | Some x \<Rightarrow> (case b of None \<Rightarrow> None | Some y \<Rightarrow> Some (x - y)))"

text \<open>The remainder operator \<open>%\<close> takes the sign of the dividend.\<close>

definition js_rem :: "int \<Rightarrow> int \<Rightarrow> int" where
  "js_rem a b = sgn a * (\<bar>a\<bar> mod \<bar>b\<bar>)"

definition num_rem :: "number \<Rightarrow> int \<Rightarrow> number" where
  "num_rem a b = (case a of None \<Rightarrow> None | Some x \<Rightarrow> Some (js_rem x b))"

text \<open>Reading \<open>arr[i]\<close>: the element, or \<open>undefined\<close> past the end.\<close>

definition arr_get :: "number list \<Rightarrow> nat \<Rightarrow> number" where
  "arr_get xs i = (if i < length xs then xs ! i else None)"

text \<open>Writing \<open>arr[i] = v\<close>: an index past the end extends the array, leaving holes before it.\<close>

definition arr_set :: "number list \<Rightarrow> nat \<Rightarrow> number \<Rightarrow> number list" where
  "arr_set xs i v = (if i < length xs then xs[i := v] else xs @ replicate (i - length xs) None @ [v])"

text \<open>
  A \<open>Buffer\<close> is a list of bytes. \<open>setNumber(NumberFormat.UInt8LE, i, v)\<close> stores \<open>v\<close>
  modulo 256, and \<open>0\<close> for \<open>NaN\<close> and \<open>undefined\<close>; \<open>buf[i]\<close> and \<open>getNumber\<close> read \<open>0\<close> outside
  the buffer; \<open>slice(offset, length)\<close> copies at most \<open>length\<close> bytes from \<open>offset\<close>.
\<close>

definition toUInt8 :: "number \<Rightarrow> int" where
  "toUInt8 v = (case v of None \<Rightarrow> 0 | Some x \<Rightarrow> x mod 256)"

definition buf_get :: "int list \<Rightarrow> nat \<Rightarrow> int" where
  "buf_get b i = (if i < length b then b ! i else 0)"

definition slice :: "nat \<Rightarrow> nat \<Rightarrow> int list \<Rightarrow> int list" where
  "slice offset len b = take len (drop offset b)"

text \<open>
  The values \<open>0, 1, 2, ...\<close> that the counter of \<open>for (let i = 0; i < bound; i++)\<close> takes
  when the bound is a (possibly fractional) number.
\<close>

definition loop_range :: "rat \<Rightarrow> nat list" where
  "loop_range bound = [0..<nat \<lceil>bound\<rceil>]"

section \<open>Frame codec\<close>

definition concatNumArr :: "number list \<Rightarrow> number list \<Rightarrow> number list" where
  "concatNumArr firstArr secondArr =
     (let result = fold (\<lambda>i r. arr_set r i (arr_get firstArr i)) [0..<length firstArr] []
      in fold (\<lambda>i r. arr_set r (length firstArr + i) (arr_get secondArr i))
           [0..<length secondArr] result)"

definition makeCommand :: "number list \<Rightarrow> number list" where
  "makeCommand command =
     (let len = int (length command);
          length_checksum = 0x100 - js_rem len 0x100;
          preCommand = [Some 0x00, Some 0x00, Some 0xFF, Some len, Some length_checksum];
          allBytes = fold (\<lambda>c acc. num_add acc c) command (Some 0);
          data_checksum = num_sub (Some 0x100) (num_rem allBytes 0x100);
          postCommand = [data_checksum, Some 0x00]
      in concatNumArr (concatNumArr preCommand command) postCommand)"

definition hex_chars :: "string" where
  "hex_chars = ''0123456789ABCDEF''"

function decToHex_loop :: "int \<Rightarrow> string \<Rightarrow> string" where
  "decToHex_loop nrCopy result =
     (if nrCopy > 0
      then (let remainder = js_rem nrCopy 16
            in decToHex_loop ((nrCopy - remainder) div 16) (hex_chars ! nat remainder # result))
      else result)"
  by pat_completeness auto
termination
  by (relation "measure (\<lambda>(n, r). nat n)") (auto simp: js_rem_def)

definition decToHex :: "int \<Rightarrow> string" where
  "decToHex decNr =
     (if decNr = 0 then ''00''
      else (let result = decToHex_loop decNr ''''
            in if decNr < 17 then ''0'' @ result else result))"

section \<open>The bus and the driver's state\<close>

text \<open>
  The driver talks to the reader chip through \<open>pins.i2cWriteBuffer\<close> and
  \<open>pins.i2cReadBuffer\<close>. The chip is a parameter: any state type \<open>'d\<close> with a reaction to a
  written buffer and an answer to a read of \<open>n\<close> bytes. Pauses, the LED display and the serial
  debug channel have no effect on the protocol and are left out.
\<close>

record 'd bus =
  on_write :: "int list \<Rightarrow> 'd \<Rightarrow> 'd"
  on_read :: "nat \<Rightarrow> 'd \<Rightarrow> int list \<times> 'd"

text \<open>
  The module's variables, the chip's state, and the trace \<open>sent\<close> of every buffer written to
  the bus, oldest first.
\<close>

record 'd host =
  targetID :: int
  targetNFCID :: "int list"
  running :: bool
  sent :: "int list list"
  device :: 'd

definition targetKey :: "int list" where
  "targetKey = [0xFF, 0xFF, 0xFF, 0xFF, 0xFF, 0xFF]"

definition dataBlocks :: "int list" where
  "dataBlocks = [5, 6, 8, 9, 10, 12, 13, 14, 16, 17, 18, 20, 21, 22]"

definition ACK_FRAME :: "int list" where
  "ACK_FRAME = [0x01, 0x00, 0x00, 0xFF, 0x00, 0xFF, 0x00]"

text \<open>A read returns a buffer of exactly the requested size, zero-padded, holding bytes.\<close>

definition i2cReadBuffer :: "'d bus \<Rightarrow> nat \<Rightarrow> 'd host \<Rightarrow> int list \<times> 'd host" where
  "i2cReadBuffer io n s =
     (let (bs, d) = on_read io n (device s)
      in (take n (map (\<lambda>b. b mod 256) bs @ replicate n 0), s\<lparr>device := d\<rparr>))"

definition i2cWriteBuffer :: "'d bus \<Rightarrow> int list \<Rightarrow> 'd host \<Rightarrow> 'd host" where
  "i2cWriteBuffer io buf s = s\<lparr>sent := sent s @ [buf], device := on_write io buf (device s)\<rparr>"

definition checkOutput :: "'d bus \<Rightarrow> int list \<Rightarrow> 'd host \<Rightarrow> bool \<times> 'd host" where
  "checkOutput io arr s =
     (let (outputFrame, s') = i2cReadBuffer io (length arr) s
      in (list_all (\<lambda>i. buf_get outputFrame i = arr ! i) [0..<length arr], s'))"

definition writeBuffer :: "'d bus \<Rightarrow> number list \<Rightarrow> 'd host \<Rightarrow> 'd host" where
  "writeBuffer io arr s = i2cWriteBuffer io (map toUInt8 arr) s"

definition readFrame :: "'d bus \<Rightarrow> 'd host \<Rightarrow> int list \<times> 'd host" where
  "readFrame io s =
     (let (buffer, s') = i2cReadBuffer io 64 s;
          len = buf_get buffer 4;
          outputFrame = slice 0 (nat (len + 8)) buffer
      in (outputFrame, s'))"

section \<open>Session controller\<close>

definition wakeup :: "'d bus \<Rightarrow> 'd host \<Rightarrow> 'd host" where
  "wakeup io s =
     (let s0 = i2cWriteBuffer io [0] s;
          s1 = writeBuffer io
                 (map Some [0x00, 0x00, 0xFF, 0x03, 0xFD, 0xD4, 0x14, 0x01, 0x17, 0x00]) s0;
          (validAck, s2) = checkOutput io ACK_FRAME s1;
          (validWakeupOK, s3) =
             checkOutput io [0x01, 0x00, 0x00, 0xFF, 0x02, 0xFE, 0xD5, 0x15, 0x16] s2
      in if validAck \<and> validWakeupOK then s3\<lparr>running := True\<rparr> else s3)"

definition listTarget :: "int list" where
  "listTarget = [0x00, 0x00, 0xFF, 0x04, 0xFC, 0xD4, 0x4A, 0x01, 0x00, 0xE1, 0x00]"

definition findPassiveTarget :: "'d bus \<Rightarrow> 'd host \<Rightarrow> 'd host" where
  "findPassiveTarget io s =
     (let s0 = s\<lparr>targetID := 0, targetNFCID := [0, 0, 0, 0]\<rparr>;
          s1 = writeBuffer io (map Some listTarget) s0;
          (ack, s2) = checkOutput io ACK_FRAME s1;
          (outputFrame, s3) = readFrame io s2
      in if buf_get outputFrame 0 = 0x01 \<and> buf_get outputFrame 8 = 0x01
         then s3\<lparr>targetID := 1,
                 targetNFCID := (targetNFCID s3)
                   [0 := buf_get outputFrame 14, 1 := buf_get outputFrame 15,
                    2 := buf_get outputFrame 16, 3 := buf_get outputFrame 17]\<rparr>
         else s3)"

section \<open>Authentication and block transactions (Mifare Classic driver)\<close>

definition authenticate :: "'d bus \<Rightarrow> number \<Rightarrow> 'd host \<Rightarrow> bool \<times> 'd host" where
  "authenticate io address s =
     (let command = concatNumArr [Some 0xD4, Some 0x40, Some (targetID s), Some 0x60, address]
                      (concatNumArr (map Some targetKey) (map Some (targetNFCID s)));
          fullCommand = makeCommand command;
          s1 = writeBuffer io fullCommand s;
          (ack, s2) = checkOutput io ACK_FRAME s1;
          (authResponse, s3) = readFrame io s2;
          success = (buf_get authResponse 7 = 0x00)
      in (success, s3))"

definition read16Bytes :: "'d bus \<Rightarrow> number \<Rightarrow> 'd host \<Rightarrow> int list \<times> 'd host" where
  "read16Bytes io address s =
     (let (authenticated, s1) = authenticate io address s;
          command = [Some 0xD4, Some 0x40, Some 0x01, Some 0x30, address];
          fullCommand = makeCommand command;
          s2 = writeBuffer io fullCommand s1;
          (ack, s3) = checkOutput io ACK_FRAME s2
      in readFrame io s3)"

definition write16Bytes :: "'d bus \<Rightarrow> number list \<Rightarrow> number \<Rightarrow> 'd host \<Rightarrow> 'd host" where
  "write16Bytes io data address s =
     (let (authenticated, s1) = authenticate io address s;
          command = concatNumArr [Some 0xD4, Some 0x40, Some (targetID s1), Some 0xA0, address] data;
          fullCommand = makeCommand command;
          s2 = writeBuffer io fullCommand s1;
          (ack, s3) = checkOutput io ACK_FRAME s2
      in s3)"

section \<open>Public operations (Mifare Classic driver)\<close>

definition getNFCID :: "'d bus \<Rightarrow> 'd host \<Rightarrow> string \<times> 'd host" where
  "getNFCID io s =
     (let s1 = findPassiveTarget io s
      in if targetID s1 \<noteq> 0
         then (concat (map (\<lambda>i. decToHex (targetNFCID s1 ! i)) [0..<4]), s1)
         else ([], s1))"

text \<open>\<open>message.charCodeAt(i)\<close>: the code of the character, \<open>NaN\<close> outside the string.\<close>

definition charCodeAt :: "string \<Rightarrow> nat \<Rightarrow> number" where
  "charCodeAt message i = (if i < length message then Some (of_char (message ! i)) else None)"

definition fromCharCode :: "int \<Rightarrow> char" where
  "fromCharCode c = char_of c"

text \<open>
  The body of the first loop of \<open>writeText\<close>: the sixteen numbers of block \<open>i\<close>. The second
  inner loop starts at \<open>len\<close> and fills the array up to index 15.
\<close>

definition blockData :: "string \<Rightarrow> rat \<Rightarrow> nat \<Rightarrow> number list" where
  "blockData message blocksNeeded i =
     (let len = (if of_nat i < blocksNeeded - 1 then 16
                 else of_nat (length message) - (blocksNeeded - 1) * 16);
          chars = map (\<lambda>j. charCodeAt message (i * 16 + j)) (loop_range len)
      in chars @ replicate (16 - length chars) (Some 0))"

definition writeText :: "'d bus \<Rightarrow> string \<Rightarrow> 'd host \<Rightarrow> 'd host" where
  "writeText io message0 s =
     (let s1 = (if \<not> running s then wakeup io s else s);
          s2 = findPassiveTarget io s1
      in if targetID s2 = 1
         then (let maxStringLength = 16 * length dataBlocks;
                   message = (if length message0 > maxStringLength
                              then take maxStringLength message0 else message0);
                   blocksNeeded = of_nat (length message) / 16 + 1;
                   data = map (blockData message blocksNeeded) (loop_range blocksNeeded);
                   header = Some (int (length message)) # replicate 15 (Some 0);
                   s3 = write16Bytes io header (Some 0x04) s2
               in fold (\<lambda>j st. write16Bytes io (data ! j) (arr_get (map Some dataBlocks) j) st)
                    (loop_range blocksNeeded) s3)
         else s2)"

definition readText :: "'d bus \<Rightarrow> 'd host \<Rightarrow> string \<times> 'd host" where
  "readText io s =
     (let s1 = (if \<not> running s then wakeup io s else s);
          s2 = findPassiveTarget io s1
      in if targetID s2 = 1
         then (let (outputFrame, s3) = read16Bytes io (Some 0x04) s2;
                   messageLength = buf_get outputFrame 9;
                   blocksNeeded = of_int messageLength / 16 + 1
               in fold (\<lambda>j (textMessage, st).
                          (let (messageFrame, st') = read16Bytes io (arr_get (map Some dataBlocks) j) st;
                               message = slice 9 16 messageFrame;
                               len = (if of_nat j < blocksNeeded - 1 then 16
                                      else of_int messageLength - (blocksNeeded - 1) * 16)
                           in (textMessage @ map (\<lambda>i. fromCharCode (buf_get message i)) (loop_range len),
                               st')))
                    (loop_range blocksNeeded) ([], s3))
         else ([], s2))"

section \<open>The NDEF driver for 4-byte pages (the second source file)\<close>

text \<open>
  The second file shares \<open>makeCommand\<close>, \<open>writeBuffer\<close>, \<open>checkOutput\<close>, \<open>readFrame\<close> and
  \<open>wakeup\<close> with the first. Its \<open>findPassiveTarget\<close> takes the UID from offsets 12 to 15.
\<close>

definition findPassiveTarget_ndef :: "'d bus \<Rightarrow> 'd host \<Rightarrow> 'd host" where
  "findPassiveTarget_ndef io s =
     (let s0 = s\<lparr>targetID := 0, targetNFCID := [0, 0, 0, 0]\<rparr>;
          s1 = writeBuffer io (map Some listTarget) s0;
          (ack, s2) = checkOutput io ACK_FRAME s1;
          (outputFrame, s3) = readFrame io s2
      in if buf_get outputFrame 0 = 0x01 \<and> buf_get outputFrame 8 = 0x01
         then s3\<lparr>targetID := 1,
                 targetNFCID := (targetNFCID s3)
                   [0 := buf_get outputFrame 12, 1 := buf_get outputFrame 13,
                    2 := buf_get outputFrame 14, 3 := buf_get outputFrame 15]\<rparr>
         else s3)"

text \<open>
  \<open>write4Bytes\<close>: the bodies of the two tests \<open>data.length != 4\<close> and \<open>address > 0x28\<close>
  only print debug messages (for the second: the page, \<open>Aborting!\<close> and the data). Neither
  body returns or changes a variable, so the state is the same on both branches and the
  function goes on to the command below.
\<close>

definition write4Bytes :: "'d bus \<Rightarrow> number list \<Rightarrow> int \<Rightarrow> 'd host \<Rightarrow> 'd host" where
  "write4Bytes io data address s =
     (let s_len = (if length data \<noteq> 4 then s else s);
          s_addr = (if address > 0x28 then s_len else s_len);
          command = concatNumArr
                      [Some 0xD4, Some 0x40, Some (targetID s_addr), Some 0xA2, Some address] data;
          fullCommand = makeCommand command;
          s1 = writeBuffer io fullCommand s_addr;
          (ack, s2) = checkOutput io ACK_FRAME s1
      in s2)"

function formatAsNdef_loop :: "'d bus \<Rightarrow> int \<Rightarrow> 'd host \<Rightarrow> 'd host" where
  "formatAsNdef_loop io address s =
     (if address < 0x28
      then formatAsNdef_loop io (address + 1)
             (write4Bytes io [Some 0x00, Some 0x00, Some 0x00, Some 0x00] address s)
      else s)"
  by pat_completeness auto
termination
  by (relation "measure (\<lambda>(io, address, s). nat (0x28 - address))") auto

definition formatAsNdef :: "'d bus \<Rightarrow> 'd host \<Rightarrow> 'd host" where
  "formatAsNdef io s =
     (let s1 = (if \<not> running s then wakeup io s else s);
          s2 = findPassiveTarget_ndef io s1
      in if targetID s2 = 1
         then (let s3 = write4Bytes io [Some 0x03, Some 0x04, Some 0xD8, Some 0x00] 0x04 s2;
                   s4 = write4Bytes io [Some 0x00, Some 0x00, Some 0xFE, Some 0x00] 0x05 s3
               in formatAsNdef_loop io 0x06 s4)
         else s2)"

text \<open>
  The loop over the string of \<open>writeNDEFText\<close>: it returns the page under construction, the
  next address and the state.
\<close>

function writeNDEFText_loop ::
  "'d bus \<Rightarrow> string \<Rightarrow> nat \<Rightarrow> number list \<Rightarrow> int \<Rightarrow> 'd host \<Rightarrow> number list \<times> int \<times> 'd host" where
  "writeNDEFText_loop io charsToWrite posInString pageToAdd address s =
     (if posInString < length charsToWrite
      then (let pageToAdd1 = arr_set pageToAdd (length pageToAdd) (charCodeAt charsToWrite posInString)
            in if length pageToAdd1 = 4
               then writeNDEFText_loop io charsToWrite (posInString + 1) []
                      (address + 1) (write4Bytes io pageToAdd1 address s)
               else writeNDEFText_loop io charsToWrite (posInString + 1) pageToAdd1 address s)
      else (pageToAdd, address, s))"
  by pat_completeness auto
termination
  by (relation "measure (\<lambda>(io, cs, pos, page, a, s). length cs - pos)") auto

definition writeNDEFText :: "'d bus \<Rightarrow> string \<Rightarrow> 'd host \<Rightarrow> 'd host" where
  "writeNDEFText io charsToWrite s =
     (let s1 = (if \<not> running s then wakeup io s else s);
          s2 = findPassiveTarget_ndef io s1
      in if targetID s2 = 1
         then (let s3 = formatAsNdef io s2;
                   maxStringLength = ((0x29 - 0x04) * 4) - 1
               in if int (length charsToWrite) > maxStringLength
                  then s3
                  else (let n = int (length charsToWrite);
                            s4 = write4Bytes io [Some 0x03, Some (0x07 + n), Some 0xD1, Some 0x01] 0x04 s3;
                            s5 = write4Bytes io [Some (n + 0x03), Some 0x54, Some 0x02, Some 0x64] 0x05 s4;
                            (pageToAdd, address, s6) =
                               writeNDEFText_loop io charsToWrite 0 [Some 0x65] 0x06 s5;
                            pageToAdd1 = arr_set pageToAdd (length pageToAdd) (Some 0xFE);
                            pageToAdd2 = pageToAdd1 @ replicate (4 - length pageToAdd1) (Some 0x00)
                        in write4Bytes io pageToAdd2 address s6))
         else s2)"

section \<open>A reference chip for concrete runs\<close>

text \<open>
  A reader chip with one Mifare Classic card, answering as the PN532 user manual describes:
  a command frame with the right preamble, length and checksums is acknowledged, and
  answered when it is one of the commands the driver uses; any other buffer gets no answer.
  A read returns the oldest pending frame, led by the ready byte \<open>0x01\<close>; with nothing
  pending it returns nothing (the driver then sees zeros). A block write stores its sixteen
  bytes, a block read returns them.
\<close>

record chip =
  present :: bool
  uid :: "int list"
  blocks :: "(int \<times> int list) list"
  staged :: "int list list"

text \<open>The content of a block: what was last stored there, sixteen zeros on a fresh card.\<close>

definition block_at :: "chip \<Rightarrow> int \<Rightarrow> int list" where
  "block_at c a = (case map_of (blocks c) a of None \<Rightarrow> replicate 16 0 | Some d \<Rightarrow> d)"

definition response_frame :: "int list \<Rightarrow> int list" where
  "response_frame p =
     [0x01, 0x00, 0x00, 0xFF, int (length p), (0x100 - int (length p)) mod 0x100]
       @ p @ [(0x100 - sum_list p mod 0x100) mod 0x100, 0x00]"

definition well_formed :: "int list \<Rightarrow> bool" where
  "well_formed f =
     (7 \<le> length f \<and> take 3 f = [0x00, 0x00, 0xFF] \<and> int (length f) = f ! 3 + 7
        \<and> (f ! 3 + f ! 4) mod 0x100 = 0
        \<and> (sum_list (take (nat (f ! 3)) (drop 5 f)) + f ! (length f - 2)) mod 0x100 = 0)"

definition chip_exec :: "int list \<Rightarrow> chip \<Rightarrow> chip" where
  "chip_exec p c =
     (if take 2 p = [0xD4, 0x14]
        then c\<lparr>staged := [ACK_FRAME, response_frame [0xD5, 0x15]]\<rparr>
      else if take 2 p = [0xD4, 0x4A]
        then (if present c
              then c\<lparr>staged := [ACK_FRAME,
                     response_frame ([0xD5, 0x4B, 0x01, 0x01, 0x00, 0x04, 0x08, 0x04] @ uid c)]\<rparr>
              else c\<lparr>staged := [ACK_FRAME]\<rparr>)
      else if take 2 p = [0xD4, 0x40] \<and> 5 \<le> length p
        then (if p ! 3 = 0x30
                then c\<lparr>staged := [ACK_FRAME, response_frame ([0xD5, 0x41, 0x00] @ block_at c (p ! 4))]\<rparr>
              else if p ! 3 = 0xA0 \<and> length p = 21
                then c\<lparr>staged := [ACK_FRAME, response_frame [0xD5, 0x41, 0x00]],
                       blocks := (p ! 4, drop 5 p) # blocks c\<rparr>
              else c\<lparr>staged := [ACK_FRAME, response_frame [0xD5, 0x41, 0x00]]\<rparr>)
      else c\<lparr>staged := [ACK_FRAME]\<rparr>)"

definition chip_write :: "int list \<Rightarrow> chip \<Rightarrow> chip" where
  "chip_write f c =
     (if well_formed f then chip_exec (take (nat (f ! 3)) (drop 5 f)) c else c\<lparr>staged := []\<rparr>)"

definition chip_read :: "nat \<Rightarrow> chip \<Rightarrow> int list \<times> chip" where
  "chip_read n c = (case staged c of [] \<Rightarrow> ([], c) | f # fs \<Rightarrow> (f, c\<lparr>staged := fs\<rparr>))"

definition chip_bus :: "chip bus" where
  "chip_bus = \<lparr>on_write = chip_write, on_read = chip_read\<rparr>"

definition blank_card :: "bool \<Rightarrow> int list \<Rightarrow> chip" where
  "blank_card here nfcid = \<lparr>present = here, uid = nfcid, blocks = [], staged = []\<rparr>"

definition power_on :: "'d \<Rightarrow> 'd host" where
  "power_on d = \<lparr>targetID = 0, targetNFCID = [0, 0, 0, 0], running = False, sent = [], device = d\<rparr>"

text \<open>
  A bus that hands every written buffer back on the next read, led by the ready byte
  \<open>0x01\<close> that precedes every frame the chip returns.
\<close>

definition loopback :: "int list bus" where
  "loopback = \<lparr>on_write = (\<lambda>buf d. 0x01 # buf), on_read = (\<lambda>n d. (d, d))\<rparr>"

section \<open>Reading the trace and the discovery response\<close>

text \<open>
  The buffers an operation wrote to the bus: what the trace gained between two states.
\<close>

definition issued :: "'d host \<Rightarrow> 'd host \<Rightarrow> int list list" where
  "issued s s' = drop (length (sent s)) (sent s')"

text \<open>
  A buffer on the bus is a block-write command when the payload of its frame starts
  \<open>D4 40 tg A0\<close>; the block it targets is the next byte.
\<close>

definition write_target :: "int list \<Rightarrow> int option" where
  "write_target f =
     (if 10 \<le> length f \<and> f ! 5 = 0xD4 \<and> f ! 6 = 0x40 \<and> f ! 8 = 0xA0 then Some (f ! 9) else None)"

text \<open>The same for the page-write command \<open>D4 40 tg A2\<close> of the NDEF driver.\<close>

definition page_write_target :: "int list \<Rightarrow> int option" where
  "page_write_target f =
     (if 10 \<le> length f \<and> f ! 5 = 0xD4 \<and> f ! 6 = 0x40 \<and> f ! 8 = 0xA2 then Some (f ! 9) else None)"

text \<open>
  Between two states the trace only grew, and every block-write command it gained targets
  a block that satisfies \<open>P\<close>.
\<close>

definition frames_ok :: "(int \<Rightarrow> bool) \<Rightarrow> 'd host \<Rightarrow> 'd host \<Rightarrow> bool" where
  "frames_ok P s s' =
     (take (length (sent s)) (sent s') = sent s
        \<and> list_all (\<lambda>f. case write_target f of None \<Rightarrow> True | Some a \<Rightarrow> P a) (issued s s'))"

text \<open>
  The frame that \<open>findPassiveTarget\<close> reads when it is called in state \<open>s\<close>, and the test
  it makes on it: no target, unless byte 0 and byte 8 are both \<open>0x01\<close>.
\<close>

definition discoveryResponse :: "'d bus \<Rightarrow> 'd host \<Rightarrow> int list" where
  "discoveryResponse io s =
     fst (readFrame io (snd (checkOutput io ACK_FRAME
       (writeBuffer io (map Some listTarget) (s\<lparr>targetID := 0, targetNFCID := [0, 0, 0, 0]\<rparr>)))))"

definition noTarget :: "int list \<Rightarrow> bool" where
  "noTarget outputFrame = (\<not> (buf_get outputFrame 0 = 0x01 \<and> buf_get outputFrame 8 = 0x01))"

section \<open>Properties\<close>

lemma concat_copy:
  "fold (\<lambda>i r. arr_set r (k + i) (arr_get ys i)) [0..<n] r0 = r0 @ take n ys"
  if "length r0 = k" "n \<le> length ys"
  using that
proof (induction n)
  case 0
  then show ?case by simp
next
  case (Suc n)
  then show ?case
    by (simp add: arr_set_def arr_get_def take_Suc_conv_app_nth)
qed

lemma concatNumArr_append: "concatNumArr xs ys = xs @ ys"
  using concat_copy [of "[]" 0 "length xs" xs] concat_copy [of xs "length xs" "length ys" ys]
  by (simp add: concatNumArr_def)

lemma js_rem_nonneg: "0 \<le> a \<Longrightarrow> 0 < b \<Longrightarrow> js_rem a b = a mod b"
  by (cases "a = 0") (simp_all add: js_rem_def)

lemma fold_num_add: "fold (\<lambda>c acc. num_add acc c) (map Some bs) (Some k) = Some (k + sum_list bs)"
  by (induction bs arbitrary: k) (simp_all add: num_add_def)

lemma makeCommand_layout:
  "makeCommand command =
     [Some 0x00, Some 0x00, Some 0xFF, Some (int (length command)),
      Some (0x100 - int (length command) mod 0x100)]
     @ command
     @ [num_sub (Some 0x100) (num_rem (fold (\<lambda>c acc. num_add acc c) command (Some 0)) 0x100),
        Some 0x00]"
  by (simp add: makeCommand_def concatNumArr_append js_rem_nonneg Let_def)

lemma sum_list_bytes: "list_all (\<lambda>b. 0 \<le> b \<and> b < 0x100) bs \<Longrightarrow> 0 \<le> sum_list (bs :: int list)"
  by (induction bs) simp_all

lemma makeCommand_bytes:
  assumes "list_all (\<lambda>b. 0 \<le> b \<and> b < 0x100) bs"
  shows "makeCommand (map Some bs) =
     [Some 0x00, Some 0x00, Some 0xFF, Some (int (length bs)),
      Some (0x100 - int (length bs) mod 0x100)]
     @ map Some bs
     @ [Some (0x100 - sum_list bs mod 0x100), Some 0x00]"
  using sum_list_bytes [OF assms]
  by (simp add: makeCommand_layout fold_num_add num_rem_def num_sub_def js_rem_nonneg)

lemma map_toUInt8_bytes:
  "list_all (\<lambda>b. 0 \<le> b \<and> b < 0x100) bs \<Longrightarrow> map toUInt8 (map Some bs) = bs"
  by (induction bs) (simp_all add: toUInt8_def)

lemma map_mod_bytes:
  "list_all (\<lambda>b. 0 \<le> b \<and> b < 0x100) bs \<Longrightarrow> map (\<lambda>b. b mod 256) bs = (bs :: int list)"
  by (induction bs) simp_all

lemma compl_byte: "0 < k \<Longrightarrow> k < 0x100 \<Longrightarrow> (0x100 - k) mod 0x100 = 0x100 - (k :: int)"
  by (rule mod_pos_pos_trivial) linarith+

lemma compl_mod: "k mod 0x100 \<noteq> 0 \<Longrightarrow> (0x100 - k) mod 0x100 = 0x100 - k mod (0x100 :: int)"
proof -
  assume nz: "k mod 0x100 \<noteq> 0"
  have "0 \<le> k mod 0x100" "k mod 0x100 < 0x100"
    by (rule pos_mod_sign, linarith) (rule pos_mod_bound, linarith)
  with nz have "(0x100 - k mod 0x100) mod 0x100 = 0x100 - k mod 0x100"
    by (intro compl_byte) linarith+
  then show ?thesis
    by (simp only: mod_diff_right_eq)
qed

text \<open>
  Claim C3, as the code has it. For a payload of bytes, \<open>makeCommand\<close> emits the length
  checksum \<open>0x100 - (length mod 0x100)\<close> and the data checksum \<open>0x100 - (sum mod 0x100)\<close>.
  Stored as bytes by \<open>writeBuffer\<close> they are \<open>(0x100 - length) mod 0x100\<close> and
  \<open>(0x100 - sum mod 0x100) mod 0x100\<close>; the numbers in the array equal these bytes
  whenever the length, respectively the sum, is not a multiple of 256.
\<close>

theorem makeCommand_checksums:
  assumes "list_all (\<lambda>b. 0 \<le> b \<and> b < 0x100) bs"
  shows "arr_get (makeCommand (map Some bs)) 4 = Some (0x100 - int (length bs) mod 0x100)
       \<and> arr_get (makeCommand (map Some bs)) (5 + length bs) = Some (0x100 - sum_list bs mod 0x100)
       \<and> toUInt8 (arr_get (makeCommand (map Some bs)) 4) = (0x100 - int (length bs)) mod 0x100
       \<and> toUInt8 (arr_get (makeCommand (map Some bs)) (5 + length bs))
            = (0x100 - sum_list bs mod 0x100) mod 0x100
       \<and> (int (length bs) mod 0x100 \<noteq> 0 \<longrightarrow>
            arr_get (makeCommand (map Some bs)) 4 = Some ((0x100 - int (length bs)) mod 0x100))
       \<and> (sum_list bs mod 0x100 \<noteq> 0 \<longrightarrow>
            arr_get (makeCommand (map Some bs)) (5 + length bs)
              = Some ((0x100 - sum_list bs mod 0x100) mod 0x100))"
proof -
  let ?n = "int (length bs)"
  have lcs: "arr_get (makeCommand (map Some bs)) 4 = Some (0x100 - ?n mod 0x100)"
    by (simp add: makeCommand_bytes [OF assms] arr_get_def)
  have dcs: "arr_get (makeCommand (map Some bs)) (5 + length bs) = Some (0x100 - sum_list bs mod 0x100)"
    by (simp add: makeCommand_bytes [OF assms] arr_get_def nth_append)
  have m1: "(0x100 - ?n mod 0x100) mod 0x100 = (0x100 - ?n) mod 0x100"
    by (fact mod_diff_right_eq)
  have m2: "?n mod 0x100 \<noteq> 0 \<longrightarrow> 0x100 - ?n mod 0x100 = (0x100 - ?n) mod 0x100"
    using compl_mod [of ?n] by presburger
  have m3: "sum_list bs mod 0x100 \<noteq> 0 \<longrightarrow>
      0x100 - sum_list bs mod 0x100 = (0x100 - sum_list bs mod 0x100) mod 0x100"
    using compl_mod [of "sum_list bs"] by (simp only: mod_diff_right_eq) presburger
  show ?thesis
    unfolding lcs dcs toUInt8_def option.case
    using m1 m2 m3 by blast
qed

theorem makeCommand_checksums_witness:
  "list_all (\<lambda>b. 0 \<le> b \<and> b < 0x100) [0xD4, 0x14, 0x01 :: int]
   \<and> arr_get (makeCommand (map Some [0xD4, 0x14, 0x01])) 4 = Some 0xFD
   \<and> arr_get (makeCommand (map Some [0xD4, 0x14, 0x01])) 8 = Some 0x17"
  using makeCommand_checksums [of "[0xD4, 0x14, 0x01]"] by simp

text \<open>
  Where the sum or the length is a multiple of 256 the array holds 256, not a byte: the
  command that writes the block \<open>F\<close> to address 5, and the empty command.
\<close>

theorem makeCommand_checksum_256:
  "\<not> (arr_get (makeCommand (map Some ([0xD4, 0x40, 0x01, 0xA0, 0x05, 0x46] @ replicate 15 0))) 26
        = Some ((0x100 - sum_list ([0xD4, 0x40, 0x01, 0xA0, 0x05, 0x46] @ replicate 15 0) mod 0x100) mod 0x100))
   \<and> arr_get (makeCommand (map Some ([0xD4, 0x40, 0x01, 0xA0, 0x05, 0x46] @ replicate 15 0))) 26 = Some 256
   \<and> arr_get (makeCommand []) 4 = Some 256"
  by (simp add: makeCommand_layout arr_get_def num_add_def num_rem_def num_sub_def js_rem_def
        numeral_eq_Suc)

lemma loopback_device: "device (writeBuffer loopback arr s) = 0x01 # map toUInt8 arr"
  by (simp add: writeBuffer_def i2cWriteBuffer_def loopback_def)

lemma loopback_read:
  "fst (i2cReadBuffer loopback n s) = take n (map (\<lambda>b. b mod 256) (device s) @ replicate n 0)"
  by (simp add: i2cReadBuffer_def loopback_def)

lemma take_frame:
  "length xs = n + 8 \<Longrightarrow> take (n + 8) (take 64 (xs @ replicate 64 z)) = take 64 xs"
  by (simp add: take_take min_def)

text \<open>
  Claim C1, as the code has it. \<open>readFrame\<close> expects the ready byte \<open>0x01\<close> before the
  frame, takes the length from offset 4 and reads 64 bytes. Reading back the encoded command
  for a payload of up to 255 bytes returns the first 64 bytes of the ready byte followed by
  the encoded frame, and the length byte and the length checksum add up to 0 modulo 256.
  Up to 56 bytes that is exactly the ready byte and the whole frame; up to 57 bytes the data
  checksum is among the bytes returned and adds up to 0 modulo 256 with the payload; up to
  58 bytes the payload is recovered at offset 6.
\<close>

theorem frame_roundtrip:
  assumes "list_all (\<lambda>b. 0 \<le> b \<and> b < 0x100) bs" and "length bs \<le> 255"
  shows "(let wire = map toUInt8 (makeCommand (map Some bs));
              f = fst (readFrame loopback (writeBuffer loopback (makeCommand (map Some bs)) s))
          in wire = [0x00, 0x00, 0xFF, int (length bs), (0x100 - int (length bs)) mod 0x100]
                      @ bs @ [(0x100 - sum_list bs mod 0x100) mod 0x100, 0x00]
           \<and> f = take 64 (0x01 # wire)
           \<and> buf_get f 0 = 0x01
           \<and> buf_get f 4 = int (length bs)
           \<and> (buf_get f 4 + buf_get f 5) mod 0x100 = 0
           \<and> (length bs \<le> 56 \<longrightarrow> f = 0x01 # wire)
           \<and> (length bs \<le> 57 \<longrightarrow> (sum_list bs + buf_get f (6 + length bs)) mod 0x100 = 0)
           \<and> (length bs \<le> 58 \<longrightarrow> slice 6 (length bs) f = bs))"
proof -
  let ?n = "int (length bs)"
  define lcs dcs where "lcs = (0x100 - ?n) mod 0x100"
    and "dcs = (0x100 - sum_list bs mod 0x100) mod 0x100"
  define wire where "wire = [0x00, 0x00, 0xFF, ?n, lcs] @ bs @ [dcs, 0x00]"
  define f where "f = fst (readFrame loopback (writeBuffer loopback (makeCommand (map Some bs)) s))"
  have small: "?n mod 0x100 = ?n"
    using assms(2) by simp
  have range: "0 \<le> lcs" "lcs < 0x100" "0 \<le> dcs" "dcs < 0x100"
    by (simp_all add: lcs_def dcs_def)
  have encoded: "map toUInt8 (makeCommand (map Some bs)) = wire"
    using map_toUInt8_bytes [OF assms(1)]
    by (simp add: makeCommand_bytes [OF assms(1)] toUInt8_def small wire_def lcs_def dcs_def)
  then have dev: "device (writeBuffer loopback (makeCommand (map Some bs)) s) = 0x01 # wire"
    by (simp only: loopback_device)
  have bytes: "map (\<lambda>b. b mod 256) (0x01 # wire) = 0x01 # wire"
    using map_mod_bytes [OF assms(1)] range small by (simp add: wire_def)
  have wlen: "length (0x01 # wire) = length bs + 8"
    by (simp add: wire_def)
  have buffer: "fst (i2cReadBuffer loopback 64 (writeBuffer loopback (makeCommand (map Some bs)) s))
      = take 64 ((0x01 # wire) @ replicate 64 0)"
    by (simp only: loopback_read dev bytes)
  have at4: "buf_get (take 64 ((0x01 # wire) @ replicate 64 0)) 4 = ?n"
    by (simp add: buf_get_def wire_def)
  have frame: "f = take 64 (0x01 # wire)"
    unfolding f_def readFrame_def split_def Let_def fst_conv buffer at4 slice_def drop_0
    using take_frame [OF wlen, of 0] by (simp add: nat_add_distrib)
  have sum0: "(sum_list bs + dcs) mod 0x100 = 0"
    unfolding dcs_def
    by (metis add.commute diff_add_cancel mod_add_right_eq mod_diff_right_eq mod_self)
  have len0: "(?n + lcs) mod 0x100 = 0"
    unfolding lcs_def
    by (metis add.commute diff_add_cancel mod_add_left_eq mod_add_right_eq mod_self)
  have head: "buf_get f 0 = 0x01" "buf_get f 4 = ?n" "buf_get f 5 = lcs"
    by (simp_all add: frame buf_get_def wire_def)
  have whole: "f = 0x01 # wire" if "length bs \<le> 56"
    using that wlen by (simp add: frame)
  have check: "buf_get f (6 + length bs) = dcs" if "length bs \<le> 57"
    using that by (simp add: frame buf_get_def wire_def nth_append)
  have payload: "slice 6 (length bs) f = bs" if "length bs \<le> 58"
    using that by (simp add: frame slice_def wire_def drop_take min_def)
  have layout: "wire = [0x00, 0x00, 0xFF, ?n, (0x100 - ?n) mod 0x100]
                      @ bs @ [(0x100 - sum_list bs mod 0x100) mod 0x100, 0x00]"
    by (simp only: wire_def lcs_def dcs_def)
  have lcs_ok: "(buf_get f 4 + buf_get f 5) mod 0x100 = 0"
    using len0 by (simp only: head)
  have dcs_ok: "(sum_list bs + buf_get f (6 + length bs)) mod 0x100 = 0" if "length bs \<le> 57"
    using sum0 by (simp only: check [OF that])
  show ?thesis
    unfolding Let_def encoded f_def [symmetric]
    using layout frame head(1,2) lcs_ok whole dcs_ok payload by blast
qed

theorem frame_roundtrip_witness:
  "list_all (\<lambda>b. 0 \<le> b \<and> b < 0x100) [0xD4, 0x40, 0x01, 0x30, 0x04 :: int]
   \<and> length [0xD4, 0x40, 0x01, 0x30, 0x04 :: int] \<le> 56
   \<and> fst (readFrame loopback (writeBuffer loopback
        (makeCommand (map Some [0xD4, 0x40, 0x01, 0x30, 0x04])) (power_on [])))
       = 0x01 # map toUInt8 (makeCommand (map Some [0xD4, 0x40, 0x01, 0x30, 0x04]))
   \<and> slice 6 5 (fst (readFrame loopback (writeBuffer loopback
        (makeCommand (map Some [0xD4, 0x40, 0x01, 0x30, 0x04])) (power_on []))))
       = [0xD4, 0x40, 0x01, 0x30, 0x04]"
proof -
  have bytes: "list_all (\<lambda>b. 0 \<le> b \<and> b < 0x100) [0xD4, 0x40, 0x01, 0x30, 0x04 :: int]"
    by simp
  have short: "length [0xD4, 0x40, 0x01, 0x30, 0x04 :: int] \<le> 255"
    by simp
  have five: "length [0xD4, 0x40, 0x01, 0x30, 0x04 :: int] = 5"
    by simp
  have le: "(5 :: nat) \<le> 56" "(5 :: nat) \<le> 58"
    by simp_all
  from frame_roundtrip [OF bytes short, of "power_on []", unfolded Let_def five] le
  have "fst (readFrame loopback (writeBuffer loopback
        (makeCommand (map Some [0xD4, 0x40, 0x01, 0x30, 0x04])) (power_on [])))
       = 0x01 # map toUInt8 (makeCommand (map Some [0xD4, 0x40, 0x01, 0x30, 0x04]))"
    and "slice 6 5 (fst (readFrame loopback (writeBuffer loopback
        (makeCommand (map Some [0xD4, 0x40, 0x01, 0x30, 0x04])) (power_on []))))
       = [0xD4, 0x40, 0x01, 0x30, 0x04]"
    by blast+
  with bytes five show ?thesis
    by simp
qed

text \<open>
  With 58 bytes the data checksum is cut off, and the byte read in its place does not
  validate; with 59 bytes the payload itself does not come back.
\<close>

theorem frame_roundtrip_long_payload:
  "(sum_list (replicate 58 1) + buf_get (fst (readFrame loopback (writeBuffer loopback
      (makeCommand (map Some (replicate 58 1))) (power_on [])))) (6 + 58)) mod 0x100 \<noteq> 0
   \<and> slice 6 59 (fst (readFrame loopback (writeBuffer loopback
      (makeCommand (map Some (replicate 59 1))) (power_on [])))) \<noteq> replicate 59 1"
  by code_simp

text \<open>
  Claim C2, as the code has it. The payload \<open>D4 40 01 30 04\<close> is encoded as
  \<open>00 00 FF 05 FB D4 40 01 30 04 B7 00\<close>: the length checksum is \<open>0xFB\<close>, the data
  checksum is \<open>0xB7\<close> (the bytes sum to \<open>0x149\<close>).
\<close>

theorem makeCommand_read_block_4:
  "makeCommand (map Some [0xD4, 0x40, 0x01, 0x30, 0x04]) =
     map Some [0x00, 0x00, 0xFF, 0x05, 0xFB, 0xD4, 0x40, 0x01, 0x30, 0x04, 0xB7, 0x00]"
  by (simp add: makeCommand_layout num_add_def num_rem_def num_sub_def js_rem_def)

text \<open>The frame of the claim, with the data checksum \<open>0xC7\<close>, is not what is encoded.\<close>

theorem makeCommand_read_block_4_not_C7:
  "makeCommand (map Some [0xD4, 0x40, 0x01, 0x30, 0x04]) \<noteq>
     map Some [0x00, 0x00, 0xFF, 0x05, 0xFB, 0xD4, 0x40, 0x01, 0x30, 0x04, 0xC7, 0x00]"
  by (simp add: makeCommand_layout num_add_def num_rem_def num_sub_def js_rem_def)

lemma i2cReadBuffer_keeps [simp]:
  "sent (snd (i2cReadBuffer io n s)) = sent s"
  "targetID (snd (i2cReadBuffer io n s)) = targetID s"
  "targetNFCID (snd (i2cReadBuffer io n s)) = targetNFCID s"
  "running (snd (i2cReadBuffer io n s)) = running s"
  by (simp_all add: i2cReadBuffer_def split_def Let_def)

lemma checkOutput_keeps [simp]:
  "sent (snd (checkOutput io arr s)) = sent s"
  "targetID (snd (checkOutput io arr s)) = targetID s"
  "targetNFCID (snd (checkOutput io arr s)) = targetNFCID s"
  "running (snd (checkOutput io arr s)) = running s"
  by (simp_all add: checkOutput_def split_def Let_def)

lemma readFrame_keeps [simp]:
  "sent (snd (readFrame io s)) = sent s"
  "targetID (snd (readFrame io s)) = targetID s"
  "targetNFCID (snd (readFrame io s)) = targetNFCID s"
  "running (snd (readFrame io s)) = running s"
  by (simp_all add: readFrame_def split_def Let_def)

lemma writeBuffer_sends [simp]:
  "sent (writeBuffer io arr s) = sent s @ [map toUInt8 arr]"
  "targetID (writeBuffer io arr s) = targetID s"
  "targetNFCID (writeBuffer io arr s) = targetNFCID s"
  "running (writeBuffer io arr s) = running s"
  by (simp_all add: writeBuffer_def i2cWriteBuffer_def)

lemma authenticate_sends [simp]:
  "sent (snd (authenticate io a s)) = sent s @
     [map toUInt8 (makeCommand ([Some 0xD4, Some 0x40, Some (targetID s), Some 0x60, a]
        @ map Some targetKey @ map Some (targetNFCID s)))]"
  "targetID (snd (authenticate io a s)) = targetID s"
  "targetNFCID (snd (authenticate io a s)) = targetNFCID s"
  "running (snd (authenticate io a s)) = running s"
  by (simp_all add: authenticate_def split_def Let_def concatNumArr_append)


lemma write4Bytes_sends [simp]:
  "sent (write4Bytes io data address s) = sent s @
     [map toUInt8 (makeCommand
        ([Some 0xD4, Some 0x40, Some (targetID s), Some 0xA2, Some address] @ data))]"
  "targetID (write4Bytes io data address s) = targetID s"
  "targetNFCID (write4Bytes io data address s) = targetNFCID s"
  "running (write4Bytes io data address s) = running s"
  by (simp_all add: write4Bytes_def split_def Let_def concatNumArr_append)

text \<open>
  Claim C6 fails on the code. \<open>write4Bytes\<close> sends its command for every address (lemma
  \<open>write4Bytes_sends\<close>); for page \<open>0x29\<close>, above the ceiling \<open>0x28\<close>, the page-write frame
  goes out on the bus.
\<close>

theorem write4Bytes_beyond_ceiling:
  "sent (write4Bytes chip_bus [Some 0, Some 0, Some 0, Some 0] 0x29
           (power_on (blank_card True [1, 2, 3, 4])))
     = [[0x00, 0x00, 0xFF, 0x09, 0xF7, 0xD4, 0x40, 0x00, 0xA2, 0x29, 0, 0, 0, 0, 0x21, 0x00]]"
  by code_simp

text \<open>
  Both results of \<open>authenticate\<close> occur: the chip's answer has the response code \<open>0x41\<close>
  at offset 7, so the result is false; for the undefined address the frame carries a
  wrong checksum, the chip stays silent, and the zeros read back count as success.
\<close>

lemma authenticate_can_fail:
  "fst (authenticate chip_bus (Some 4) (findPassiveTarget chip_bus (power_on (blank_card True [1, 2, 3, 4])))) = False"
  by code_simp

lemma authenticate_can_succeed:
  "fst (authenticate chip_bus None (findPassiveTarget chip_bus (power_on (blank_card True [1, 2, 3, 4])))) = True"
  by code_simp

text \<open>
  Claim C9. \<open>findPassiveTarget\<close> sets \<open>targetID\<close> to 0 and the UID to \<open>[0,0,0,0]\<close> first,
  so its outcome does not depend on what they were; when the response lacks one of the two
  sentinel bytes (\<open>0x01\<close> at offsets 0 and 8) it ends with \<open>targetID = 0\<close> and the all-zero
  UID; so two calls in a row with no target each end that way. The same holds for the
  \<open>findPassiveTarget\<close> of the NDEF driver.
\<close>

theorem discovery_resets:
  "findPassiveTarget io s = findPassiveTarget io (s\<lparr>targetID := 0, targetNFCID := [0, 0, 0, 0]\<rparr>)
   \<and> (noTarget (discoveryResponse io s) \<longrightarrow>
        targetID (findPassiveTarget io s) = 0 \<and> targetNFCID (findPassiveTarget io s) = [0, 0, 0, 0])
   \<and> (noTarget (discoveryResponse io s)
        \<and> noTarget (discoveryResponse io (findPassiveTarget io s)) \<longrightarrow>
        targetID (findPassiveTarget io s) = 0 \<and> targetNFCID (findPassiveTarget io s) = [0, 0, 0, 0]
        \<and> targetID (findPassiveTarget io (findPassiveTarget io s)) = 0
        \<and> targetNFCID (findPassiveTarget io (findPassiveTarget io s)) = [0, 0, 0, 0])
   \<and> findPassiveTarget_ndef io s
        = findPassiveTarget_ndef io (s\<lparr>targetID := 0, targetNFCID := [0, 0, 0, 0]\<rparr>)
   \<and> (noTarget (discoveryResponse io s) \<longrightarrow>
        targetID (findPassiveTarget_ndef io s) = 0
        \<and> targetNFCID (findPassiveTarget_ndef io s) = [0, 0, 0, 0])"
proof -
  have reset: "findPassiveTarget io s = findPassiveTarget io (s\<lparr>targetID := 0, targetNFCID := [0, 0, 0, 0]\<rparr>)"
    for s :: "'a host"
    by (simp add: findPassiveTarget_def)
  have miss: "targetID (findPassiveTarget io s) = 0 \<and> targetNFCID (findPassiveTarget io s) = [0, 0, 0, 0]"
    if "noTarget (discoveryResponse io s)" for s :: "'a host"
    using that
    by (simp add: findPassiveTarget_def discoveryResponse_def noTarget_def split_def Let_def)
  have reset_ndef: "findPassiveTarget_ndef io s
      = findPassiveTarget_ndef io (s\<lparr>targetID := 0, targetNFCID := [0, 0, 0, 0]\<rparr>)"
    by (simp add: findPassiveTarget_ndef_def)
  have miss_ndef: "targetID (findPassiveTarget_ndef io s) = 0
      \<and> targetNFCID (findPassiveTarget_ndef io s) = [0, 0, 0, 0]"
    if "noTarget (discoveryResponse io s)"
    using that
    by (simp add: findPassiveTarget_ndef_def discoveryResponse_def noTarget_def split_def Let_def)
  show ?thesis
    using reset [of s] miss [of s] miss [of "findPassiveTarget io s"] reset_ndef miss_ndef
    by blast
qed

theorem discovery_resets_witness:
  "noTarget (discoveryResponse chip_bus (power_on (blank_card False [1, 2, 3, 4])))
   \<and> noTarget (discoveryResponse chip_bus
         (findPassiveTarget chip_bus (power_on (blank_card False [1, 2, 3, 4]))))
   \<and> targetID (findPassiveTarget chip_bus
         (findPassiveTarget chip_bus (power_on (blank_card False [1, 2, 3, 4])))) = 0
   \<and> targetNFCID (findPassiveTarget chip_bus
         (findPassiveTarget chip_bus (power_on (blank_card False [1, 2, 3, 4])))) = [0, 0, 0, 0]"
proof -
  have first: "noTarget (discoveryResponse chip_bus (power_on (blank_card False [1, 2, 3, 4])))"
    by code_simp
  have second: "noTarget (discoveryResponse chip_bus
         (findPassiveTarget chip_bus (power_on (blank_card False [1, 2, 3, 4]))))"
    by code_simp
  from discovery_resets [of chip_bus "power_on (blank_card False [1, 2, 3, 4])"] first second
  show ?thesis by blast
qed


lemma frames_ok_iff:
  "frames_ok P s s' \<longleftrightarrow>
     (\<exists>new. sent s' = sent s @ new
        \<and> list_all (\<lambda>f. case write_target f of None \<Rightarrow> True | Some a \<Rightarrow> P a) new)"
proof
  assume ok: "frames_ok P s s'"
  have "sent s' = take (length (sent s)) (sent s') @ issued s s'"
    by (simp add: issued_def)
  with ok show "\<exists>new. sent s' = sent s @ new
        \<and> list_all (\<lambda>f. case write_target f of None \<Rightarrow> True | Some a \<Rightarrow> P a) new"
    unfolding frames_ok_def by metis
next
  assume "\<exists>new. sent s' = sent s @ new
        \<and> list_all (\<lambda>f. case write_target f of None \<Rightarrow> True | Some a \<Rightarrow> P a) new"
  then show "frames_ok P s s'"
    by (auto simp: frames_ok_def issued_def)
qed

lemma frames_ok_refl: "sent s' = sent s \<Longrightarrow> frames_ok P s s'"
  by (simp add: frames_ok_iff)

lemma frames_ok_trans: "frames_ok P s s' \<Longrightarrow> frames_ok P s' s'' \<Longrightarrow> frames_ok P s s''"
  by (auto simp: frames_ok_iff)

lemma frames_ok_issued:
  "frames_ok P s s' \<Longrightarrow>
     list_all (\<lambda>f. case write_target f of None \<Rightarrow> True | Some a \<Rightarrow> P a) (issued s s')"
  by (simp add: frames_ok_def)

lemma command_frame_target:
  "write_target (map toUInt8 (makeCommand (c0 # c1 # c2 # c3 # c4 # rest)))
     = (if toUInt8 c0 = 0xD4 \<and> toUInt8 c1 = 0x40 \<and> toUInt8 c3 = 0xA0
        then Some (toUInt8 c4) else None)"
  by (simp add: write_target_def makeCommand_layout)

lemma toUInt8_lit [simp]:
  "toUInt8 (Some 0xD4) = 0xD4" "toUInt8 (Some 0x40) = 0x40" "toUInt8 (Some 0xA0) = 0xA0"
  "toUInt8 (Some 0x60) = 0x60" "toUInt8 (Some 0x30) = 0x30"
  by (simp_all add: toUInt8_def)

lemma write16Bytes_frames:
  "P (toUInt8 address) \<Longrightarrow> frames_ok P s (write16Bytes io data address s)"
  by (simp add: frames_ok_iff write16Bytes_def split_def Let_def concatNumArr_append
        command_frame_target)

lemma read16Bytes_frames: "frames_ok P s (snd (read16Bytes io address s))"
  by (simp add: frames_ok_iff read16Bytes_def split_def Let_def command_frame_target)

lemma wakeup_frames: "frames_ok P s (wakeup io s)"
  by (simp add: frames_ok_iff wakeup_def split_def Let_def i2cWriteBuffer_def write_target_def
        toUInt8_def)

lemma findPassiveTarget_frames: "frames_ok P s (findPassiveTarget io s)"
  by (simp add: frames_ok_iff findPassiveTarget_def split_def Let_def listTarget_def
        write_target_def toUInt8_def)

lemma write_loop_frames:
  "list_all (\<lambda>j. P (toUInt8 (addr j))) js \<Longrightarrow>
     frames_ok P s (fold (\<lambda>j st. write16Bytes io (data j) (addr j) st) js s)"
proof (induction js arbitrary: s)
  case Nil
  then show ?case by (simp add: frames_ok_refl)
next
  case (Cons j js)
  then show ?case
    using frames_ok_trans [OF write16Bytes_frames [of P "addr j" s io "data j"]] by simp
qed

lemma fold_frames:
  assumes step: "\<And>j acc st. frames_ok P st (snd (F j (acc, st)))"
  shows "frames_ok P s (snd (fold F js (acc, s)))"
proof (induction js arbitrary: s acc)
  case Nil
  then show ?case by (simp add: frames_ok_refl)
next
  case (Cons j js)
  have "frames_ok P s (snd (fold F js (fst (F j (acc, s)), snd (F j (acc, s)))))"
    using frames_ok_trans [OF step Cons.IH] .
  then show ?case by simp
qed

lemma dataBlocks_bytes: "list_all (\<lambda>b. 0 \<le> b \<and> b < 0x100) dataBlocks"
  by (simp add: dataBlocks_def)

lemma dataBlocks_length: "length dataBlocks = 14"
  by (simp add: dataBlocks_def)

lemma dataBlocks_get:
  "toUInt8 (arr_get (map Some dataBlocks) j) = (if j < 14 then dataBlocks ! j else 0)"
proof (cases "j < 14")
  case True
  then have "dataBlocks ! j \<in> set dataBlocks"
    by (simp add: dataBlocks_length)
  then have "0 \<le> dataBlocks ! j \<and> dataBlocks ! j < 0x100"
    using dataBlocks_bytes by (simp add: list_all_iff)
  then show ?thesis
    using True by (simp add: arr_get_def toUInt8_def dataBlocks_length)
next
  case False
  then show ?thesis
    by (simp add: arr_get_def toUInt8_def dataBlocks_length)
qed

lemma dataBlocks_unreserved: "list_all (\<lambda>b. b mod 4 \<noteq> 3) (0x04 # dataBlocks)"
  by (simp add: dataBlocks_def)

lemma dataBlocks_get_unreserved: "toUInt8 (arr_get (map Some dataBlocks) j) mod 4 \<noteq> 3"
proof (cases "j < 14")
  case True
  then have "dataBlocks ! j \<in> set dataBlocks"
    by (simp add: dataBlocks_length)
  then have "dataBlocks ! j mod 4 \<noteq> 3"
    using dataBlocks_unreserved by (simp add: list_all_iff)
  with True show ?thesis
    by (simp add: dataBlocks_get)
next
  case False
  then show ?thesis by (simp add: dataBlocks_get)
qed

lemma loop_range_blocks:
  assumes "n \<le> 208"
  shows "list_all (\<lambda>j. j < 14) (loop_range (of_nat n / 16 + 1))"
proof -
  define q :: rat where "q = of_nat n / 16 + 1"
  have "q \<le> of_int 14"
    using assms by (simp add: q_def)
  then have "\<lceil>q\<rceil> \<le> 14"
    by (simp only: ceiling_le_iff)
  then have "nat \<lceil>q\<rceil> \<le> 14"
    by linarith
  then show ?thesis
    unfolding q_def [symmetric] loop_range_def list_all_iff by auto
qed

lemma writeText_frames:
  assumes header: "P 0x04"
    and blocks: "list_all (\<lambda>j. P (toUInt8 (arr_get (map Some dataBlocks) j)))
      (loop_range (of_nat (length (if 16 * length dataBlocks < length message
                                   then take (16 * length dataBlocks) message else message)) / 16 + 1))"
  shows "frames_ok P s (writeText io message s)"
proof -
  let ?s1 = "if \<not> running s then wakeup io s else s"
  let ?s2 = "findPassiveTarget io ?s1"
  have one: "frames_ok P s ?s1"
    by (simp add: wakeup_frames frames_ok_refl)
  have two: "frames_ok P s ?s2"
    using frames_ok_trans [OF one findPassiveTarget_frames] .
  show ?thesis
  proof (cases "targetID ?s2 = 1")
    case False
    then show ?thesis
      using two by (simp add: writeText_def Let_def)
  next
    case True
    have "P (toUInt8 (Some 0x04))"
      using header by (simp add: toUInt8_def)
    from frames_ok_trans [OF two write16Bytes_frames [of P "Some 0x04", OF this]]
    have three: "frames_ok P s (write16Bytes io hd (Some 0x04) ?s2)" for hd .
    show ?thesis
      using True frames_ok_trans [OF three write_loop_frames [OF blocks]]
      by (simp add: writeText_def Let_def)
  qed
qed

lemma readText_frames: "frames_ok P s (snd (readText io s))"
proof -
  let ?s1 = "if \<not> running s then wakeup io s else s"
  let ?s2 = "findPassiveTarget io ?s1"
  have one: "frames_ok P s ?s1"
    by (simp add: wakeup_frames frames_ok_refl)
  have two: "frames_ok P s ?s2"
    using frames_ok_trans [OF one findPassiveTarget_frames] .
  show ?thesis
  proof (cases "targetID ?s2 = 1")
    case False
    then show ?thesis
      using two by (simp add: readText_def Let_def)
  next
    case True
    have three: "frames_ok P s (snd (read16Bytes io (Some 0x04) ?s2))"
      using frames_ok_trans [OF two read16Bytes_frames] .
    show ?thesis
      unfolding readText_def Let_def split_def
      apply (subst if_P [OF True])
      apply (rule frames_ok_trans [OF three])
      apply (rule fold_frames)
      apply (simp add: read16Bytes_frames)
      done
  qed
qed

lemma getNFCID_frames: "frames_ok P s (snd (getNFCID io s))"
  using findPassiveTarget_frames [of P s io] by (simp add: getNFCID_def Let_def)

lemma not_target:
  "list_all (\<lambda>f. case write_target f of None \<Rightarrow> True | Some b \<Rightarrow> b \<noteq> a) fs
     \<Longrightarrow> list_all (\<lambda>f. write_target f \<noteq> Some a) fs"
  by (induction fs) (auto split: option.splits)

lemma only_targets:
  "list_all (\<lambda>f. case write_target f of None \<Rightarrow> True | Some b \<Rightarrow> b \<in> A) fs
     \<Longrightarrow> list_all (\<lambda>f. write_target f = None \<or> write_target f \<in> Some ` A) fs"
  by (induction fs) (auto split: option.splits)

text \<open>
  What holds of the block writes for every chip. No public operation of the Mifare Classic
  driver ever puts on the bus a block-write command for an address \<open>a\<close> with
  \<open>a mod 4 = 3\<close>; the header address \<open>0x04\<close> and every element of \<open>dataBlocks\<close> are outside
  that set; and as long as the loop of \<open>writeText\<close> stays within \<open>dataBlocks\<close> (a message of
  at most 208 characters) its block writes go only to those addresses.
\<close>

theorem reserved_blocks_never_written:
  "(a mod 4 = 3 \<longrightarrow>
      list_all (\<lambda>f. write_target f \<noteq> Some a) (issued s (writeText io message s))
      \<and> list_all (\<lambda>f. write_target f \<noteq> Some a) (issued s (snd (readText io s)))
      \<and> list_all (\<lambda>f. write_target f \<noteq> Some a) (issued s (snd (getNFCID io s))))
   \<and> list_all (\<lambda>b. b mod 4 \<noteq> 3) (0x04 # dataBlocks)
   \<and> (length message \<le> 208 \<longrightarrow>
      list_all (\<lambda>f. write_target f = None \<or> write_target f \<in> Some ` set (0x04 # dataBlocks))
        (issued s (writeText io message s)))"
proof (intro conjI impI)
  assume a: "a mod 4 = 3"
  have "list_all (\<lambda>j. toUInt8 (arr_get (map Some dataBlocks) j) \<noteq> a) js" for js
    using a dataBlocks_get_unreserved by (auto simp: list_all_iff)
  moreover have "(0x04 :: int) \<noteq> a"
    using a by auto
  ultimately have "frames_ok (\<lambda>b. b \<noteq> a) s (writeText io message s)"
    by (intro writeText_frames)
  then show "list_all (\<lambda>f. write_target f \<noteq> Some a) (issued s (writeText io message s))"
    by (intro not_target frames_ok_issued)
  show "list_all (\<lambda>f. write_target f \<noteq> Some a) (issued s (snd (readText io s)))"
    by (intro not_target frames_ok_issued readText_frames)
  show "list_all (\<lambda>f. write_target f \<noteq> Some a) (issued s (snd (getNFCID io s)))"
    by (intro not_target frames_ok_issued getNFCID_frames)
next
  show "list_all (\<lambda>b. b mod 4 \<noteq> 3) (0x04 # dataBlocks)"
    by (fact dataBlocks_unreserved)
next
  assume short: "length message \<le> 208"
  then have same: "(if 16 * length dataBlocks < length message
                   then take (16 * length dataBlocks) message else message) = message"
    by (simp add: dataBlocks_def)
  have "list_all (\<lambda>j. toUInt8 (arr_get (map Some dataBlocks) j) \<in> set (0x04 # dataBlocks))
          (loop_range (of_nat (length message) / 16 + 1))"
    using loop_range_blocks [OF short]
    by (auto simp: list_all_iff dataBlocks_get dataBlocks_length)
  then have "frames_ok (\<lambda>b. b \<in> set (0x04 # dataBlocks)) s (writeText io message s)"
    by (intro writeText_frames) (simp_all only: same, simp)
  then show "list_all (\<lambda>f. write_target f = None \<or> write_target f \<in> Some ` set (0x04 # dataBlocks))
        (issued s (writeText io message s))"
    by (intro only_targets frames_ok_issued)
qed


text \<open>
  For a message of 224 characters the loop of \<open>writeText\<close> runs fifteen times over the
  fourteen elements of \<open>dataBlocks\<close>: the last write goes to \<open>dataBlocks[14]\<close>, which is
  undefined and is stored as the address byte 0.
\<close>

lemma writeText_overrun:
  assumes found: "targetID (findPassiveTarget io (if \<not> running s then wakeup io s else s)) = 1"
    and len: "length message = 224"
  shows "sent (writeText io message s) \<noteq> []
       \<and> write_target (last (sent (writeText io message s))) = Some 0"
proof -
  have "[0..<Suc 14] = [0..<14] @ [14]"
    by (simp only: upt_Suc) simp
  moreover have "nat \<lceil>(of_nat 224 :: rat) / 16 + 1\<rceil> = Suc 14"
    by simp
  ultimately have "loop_range (of_nat (length message) / 16 + 1) = [0..<14] @ [14]"
    by (simp only: len loop_range_def)
  moreover have "\<not> 16 * length dataBlocks < length message"
    by (simp add: len dataBlocks_length)
  ultimately show ?thesis
    using found
    by (simp add: writeText_def Let_def write16Bytes_def split_def concatNumArr_append
          command_frame_target dataBlocks_get del: upt_Suc)
qed

text \<open>
  Claim C7 fails on the code. For a message of 224 characters and a card in the field, the
  last buffer \<open>writeText\<close> puts on the bus is a block-write command with the address byte
  0, which is neither \<open>0x04\<close> nor an element of \<open>dataBlocks\<close>. Its data checksum is the byte
  0 as well (the sum over an undefined address is \<open>NaN\<close>), so the frame is not well formed
  and the reference chip stores only block 4 and the blocks of \<open>dataBlocks\<close>.
\<close>

theorem write_beyond_dataBlocks:
  "\<not> list_all (\<lambda>f. write_target f = None \<or> write_target f \<in> Some ` set (0x04 # dataBlocks))
        (issued (power_on (blank_card True [1, 2, 3, 4]))
           (writeText chip_bus (replicate 224 CHR ''a'') (power_on (blank_card True [1, 2, 3, 4]))))
   \<and> last (sent (writeText chip_bus (replicate 224 CHR ''a'') (power_on (blank_card True [1, 2, 3, 4]))))
       = [0x00, 0x00, 0xFF, 0x15, 0xEB, 0xD4, 0x40, 0x01, 0xA0, 0x00] @ replicate 16 0 @ [0x00, 0x00]
   \<and> \<not> well_formed
         ([0x00, 0x00, 0xFF, 0x15, 0xEB, 0xD4, 0x40, 0x01, 0xA0, 0x00] @ replicate 16 0 @ [0x00, 0x00])
   \<and> map fst (blocks (device
         (writeText chip_bus (replicate 224 CHR ''a'') (power_on (blank_card True [1, 2, 3, 4])))))
       = rev (0x04 # dataBlocks)"
proof -
  let ?s = "power_on (blank_card True [1, 2, 3, 4])"
  let ?s' = "writeText chip_bus (replicate 224 CHR ''a'') ?s"
  have found: "targetID (findPassiveTarget chip_bus (if \<not> running ?s then wakeup chip_bus ?s else ?s)) = 1"
    by code_simp
  have "length (replicate 224 CHR ''a'') = 224"
    by simp
  from writeText_overrun [OF found this]
  have some: "sent ?s' \<noteq> []" and last: "write_target (last (sent ?s')) = Some 0"
    by blast+
  note some
  moreover have "issued ?s ?s' = sent ?s'"
    by (simp add: issued_def power_on_def)
  ultimately have "last (sent ?s') \<in> set (issued ?s ?s')"
    by simp
  moreover have "\<not> (write_target (last (sent ?s')) = None
      \<or> write_target (last (sent ?s')) \<in> Some ` set (0x04 # dataBlocks))"
    by (simp add: last dataBlocks_def)
  ultimately have outside: "\<not> list_all
      (\<lambda>f. write_target f = None \<or> write_target f \<in> Some ` set (0x04 # dataBlocks)) (issued ?s ?s')"
    unfolding list_all_iff by blast
  have frame: "last (sent ?s')
       = [0x00, 0x00, 0xFF, 0x15, 0xEB, 0xD4, 0x40, 0x01, 0xA0, 0x00] @ replicate 16 0 @ [0x00, 0x00]"
    by code_simp
  have malformed: "\<not> well_formed
         ([0x00, 0x00, 0xFF, 0x15, 0xEB, 0xD4, 0x40, 0x01, 0xA0, 0x00] @ replicate 16 0 @ [0x00, 0x00])"
    by code_simp
  have stored: "map fst (blocks (device ?s')) = rev (0x04 # dataBlocks)"
    by code_simp
  from outside frame malformed stored show ?thesis
    by blast
qed

theorem reserved_blocks_never_written_witness:
  "(7 :: int) mod 4 = 3 \<and> length ''A'' \<le> 208
   \<and> list_all (\<lambda>f. write_target f \<noteq> Some 7)
        (issued (power_on (blank_card True [1, 2, 3, 4]))
           (writeText chip_bus ''A'' (power_on (blank_card True [1, 2, 3, 4]))))
   \<and> list_all (\<lambda>f. write_target f = None \<or> write_target f \<in> Some ` set (0x04 # dataBlocks))
        (issued (power_on (blank_card True [1, 2, 3, 4]))
           (writeText chip_bus ''A'' (power_on (blank_card True [1, 2, 3, 4]))))"
proof -
  have a: "(7 :: int) mod 4 = 3" by simp
  have b: "length ''A'' \<le> 208" by simp
  from reserved_blocks_never_written
         [of 7 "power_on (blank_card True [1, 2, 3, 4])" chip_bus "''A''"] a b
  show ?thesis by blast
qed


text \<open>
  \<open>decToHex\<close> on a byte: two characters, except for 16, where the test \<open>decNr < 17\<close>
  prepends a zero to the two digits \<open>10\<close>.
\<close>

declare decToHex_loop.simps [simp del]

lemma decToHex_loop_step:
  "0 < n \<Longrightarrow> decToHex_loop n r = decToHex_loop (n div 16) (hex_chars ! nat (n mod 16) # r)"
proof -
  assume pos: "0 < n"
  then have rem: "js_rem n 16 = n mod 16"
    by (simp add: js_rem_def)
  have "(n - n mod 16) div 16 = n div 16"
    by (simp add: minus_mod_eq_mult_div)
  with pos rem show ?thesis
    by (subst decToHex_loop.simps) (simp add: Let_def)
qed

lemma decToHex_loop_stop: "n \<le> 0 \<Longrightarrow> decToHex_loop n r = r"
  by (subst decToHex_loop.simps) simp

lemma decToHex_length:
  assumes "0 \<le> n" and "n < 0x100"
  shows "length (decToHex n) = (if n = 16 then 3 else 2)"
proof -
  consider "n = 0" | "0 < n" "n < 16" | "n = 16" | "16 < n"
    using assms by linarith
  then show ?thesis
  proof cases
    case 1
    then show ?thesis by (simp add: decToHex_def)
  next
    case 2
    then have "n div 16 = 0" by simp
    with 2 show ?thesis
      by (simp add: decToHex_def decToHex_loop_step decToHex_loop_stop)
  next
    case 3
    then show ?thesis
      by (simp add: decToHex_def decToHex_loop_step decToHex_loop_stop)
  next
    case 4
    with assms have "0 < n div 16" "n div 16 div 16 = 0"
      by simp_all
    with 4 show ?thesis
      by (simp add: decToHex_def decToHex_loop_step decToHex_loop_stop)
  qed
qed

text \<open>
  Claim C10 fails on the code. For a card whose UID is \<open>10 AB 00 FF\<close> the discovery
  succeeds and \<open>getNFCID\<close> returns nine characters.
\<close>

theorem getNFCID_nine_characters:
  "fst (getNFCID chip_bus (power_on (blank_card True [0x10, 0xAB, 0x00, 0xFF]))) = ''010AB00FF''
   \<and> decToHex 0x10 = ''010''"
  by code_simp

text \<open>
  The length of what \<open>readText\<close> returns, for any chip: with the header byte \<open>m\<close>, the
  bound \<open>m / 16 + 1\<close> of the loop is fractional unless 16 divides \<open>m\<close>, every block \<open>j\<close>
  with \<open>j < m / 16\<close> contributes 16 characters, and the remainder
  \<open>m - (blocksNeeded - 1) * 16\<close> is always 0.
\<close>

lemma fold_text_length:
  assumes step: "\<And>j acc st. length (fst (F j (acc, st))) = length acc + c j"
  shows "length (fst (fold F js (acc, st))) = length acc + sum_list (map c js)"
proof (induction js arbitrary: acc st)
  case Nil
  then show ?case by simp
next
  case (Cons j js)
  have "length (fst (fold F js (fst (F j (acc, st)), snd (F j (acc, st)))))
      = length (fst (F j (acc, st))) + sum_list (map c js)"
    by (rule Cons.IH)
  then show ?case
    by (simp add: step)
qed

lemma loop_range_zero: "loop_range 0 = []"
  by (simp add: loop_range_def)

lemma loop_range_16: "length (loop_range 16) = 16"
  by (simp add: loop_range_def)

lemma full_blocks:
  "sum_list (map (\<lambda>j. if of_nat j < q then 16 else 0) (loop_range (q + 1))) = 16 * nat \<lceil>q\<rceil>"
proof -
  let ?k = "nat \<lceil>q\<rceil>"
  let ?n = "nat \<lceil>q + 1\<rceil>"
  have below: "of_nat j < q \<longleftrightarrow> j < ?k" for j
  proof -
    have "of_nat j < q \<longleftrightarrow> of_int (int j) < q" by simp
    also have "\<dots> \<longleftrightarrow> int j < \<lceil>q\<rceil>" by (simp only: less_ceiling_iff)
    also have "\<dots> \<longleftrightarrow> j < ?k" by linarith
    finally show ?thesis .
  qed
  have le: "?k \<le> ?n"
    by (simp add: nat_mono)
  then have split: "[0..<?n] = [0..<?k] @ [?k..<?n]"
    by (metis le_add_diff_inverse upt_add_eq_append zero_le)
  have low: "sum_list (map (\<lambda>j. if j < ?k then 16 else 0) [0..<n]) = 16 * n" if "n \<le> ?k" for n
    using that by (induction n) auto
  have high: "sum_list (map (\<lambda>j. if j < ?k then 16 else 0) [?k..<n]) = (0 :: nat)" for n
    by (induction n) auto
  show ?thesis
    unfolding loop_range_def below split using low [of ?k] high [of ?n] by simp
qed

lemma readText_length:
  assumes found: "targetID (findPassiveTarget io (if \<not> running s then wakeup io s else s)) = 1"
  shows "length (fst (readText io s))
     = 16 * nat \<lceil>(of_int (buf_get (fst (read16Bytes io (Some 0x04)
                   (findPassiveTarget io (if \<not> running s then wakeup io s else s)))) 9) :: rat) / 16\<rceil>"
proof -
  define m :: rat where "m = of_int (buf_get (fst (read16Bytes io (Some 0x04)
                   (findPassiveTarget io (if \<not> running s then wakeup io s else s)))) 9)"
  have rest: "m - (m / 16 + 1 - 1) * 16 = 0"
    by simp
  have cond: "of_nat j < m / 16 + 1 - 1 \<longleftrightarrow> of_nat j < m / 16" for j :: nat
    by simp
  have "length (fst (fold F js ([], st))) = sum_list (map c js)"
    if "\<And>j acc st. length (fst (F j (acc, st))) = length acc + c j"
    for F :: "nat \<Rightarrow> string \<times> 'a host \<Rightarrow> string \<times> 'a host" and js c st
    using fold_text_length [of F c js "[]" st, OF that] by simp
  note fold_len = this
  show ?thesis
    unfolding readText_def Let_def split_def m_def [symmetric]
    apply (subst if_P [OF found])
    apply (subst fold_len [where c = "\<lambda>j. if of_nat j < m / 16 then 16 else 0"])
     apply (simp add: rest cond loop_range_zero loop_range_16)
    apply (rule full_blocks)
    done
qed

text \<open>
  What \<open>writeText\<close> does with the one-character message \<open>A\<close> on the reference chip: the
  bound \<open>1/16 + 1\<close> makes the loop run twice, so after the header at block 4 it writes
  blocks 5 and 6. The command for block 5 carries the character and fifteen \<open>NaN\<close>, hence
  a data checksum stored as 0; the chip does not accept it, and the card holds the header
  and the zeros of block 6.
\<close>

lemma writeText_A_targets:
  "map write_target (issued (power_on (blank_card True [1, 2, 3, 4]))
           (writeText chip_bus ''A'' (power_on (blank_card True [1, 2, 3, 4]))))
   = [None, None, None, None, Some 4, None, Some 5, None, Some 6]"
  by code_simp

lemma writeText_A_blocks:
  "blocks (device (writeText chip_bus ''A'' (power_on (blank_card True [1, 2, 3, 4]))))
   = [(6, replicate 16 0), (4, 1 # replicate 15 0)]"
  by code_simp

text \<open>
  Claim C4 fails on the code. On the reference chip, which stores what is written and
  returns what is stored, writing \<open>A\<close> and reading back yields sixteen characters.
\<close>

theorem text_roundtrip_pads:
  "length (fst (readText chip_bus (writeText chip_bus ''A'' (power_on (blank_card True [1, 2, 3, 4]))))) = 16
   \<and> fst (readText chip_bus (writeText chip_bus ''A'' (power_on (blank_card True [1, 2, 3, 4])))) \<noteq> ''A''"
proof -
  let ?s = "writeText chip_bus ''A'' (power_on (blank_card True [1, 2, 3, 4]))"
  have awake: "running ?s"
    by code_simp
  have found: "targetID (findPassiveTarget chip_bus ?s) = 1"
    by code_simp
  have header: "buf_get (fst (read16Bytes chip_bus (Some 0x04) (findPassiveTarget chip_bus ?s))) 9 = 1"
    by code_simp
  from awake found have "targetID (findPassiveTarget chip_bus (if \<not> running ?s then wakeup chip_bus ?s else ?s)) = 1"
    by simp
  moreover have "\<lceil>(1 :: rat) / 16\<rceil> = 1"
    by (rule ceiling_unique) simp_all
  ultimately have "length (fst (readText chip_bus ?s)) = 16"
    using readText_length [of chip_bus ?s] awake header by simp
  then show ?thesis
    by auto
qed

text \<open>
  The page writes of the NDEF driver, read off the trace. \<open>formatAsNdef\<close> writes the pages
  4 to 39; \<open>writeNDEFText\<close> calls it before it compares the length of the string with the
  maximum.
\<close>

lemma page_frame_target:
  "page_write_target (map toUInt8 (makeCommand (c0 # c1 # c2 # c3 # c4 # rest)))
     = (if toUInt8 c0 = 0xD4 \<and> toUInt8 c1 = 0x40 \<and> toUInt8 c3 = 0xA2
        then Some (toUInt8 c4) else None)"
  by (simp add: page_write_target_def makeCommand_layout)

lemma write4Bytes_pages:
  "0 \<le> a \<Longrightarrow> a < 0x100 \<Longrightarrow>
     map page_write_target (sent (write4Bytes io data a s))
       = map page_write_target (sent s) @ [Some a]"
  by (simp add: page_frame_target) (simp add: toUInt8_def)

lemma write4Bytes_targetID: "targetID (write4Bytes io data a s) = targetID s"
  by simp

lemma formatAsNdef_loop_pages:
  "0 \<le> a \<Longrightarrow>
     map page_write_target (sent (formatAsNdef_loop io a s))
       = map page_write_target (sent s) @ map Some [a..0x27]"
proof (induction io a s rule: formatAsNdef_loop.induct)
  case (1 io address s)
  show ?case
  proof (cases "address < 0x28")
    case True
    then have "[address..0x27] = address # [address + 1..0x27]"
      by (simp add: upto_rec1)
    moreover have "map page_write_target (sent (formatAsNdef_loop io (address + 1)
          (write4Bytes io [Some 0x00, Some 0x00, Some 0x00, Some 0x00] address s)))
        = map page_write_target (sent (write4Bytes io [Some 0x00, Some 0x00, Some 0x00, Some 0x00] address s))
            @ map Some [address + 1..0x27]"
      using True "1.prems" by (intro "1.IH") simp_all
    ultimately show ?thesis
      using True "1.prems"
      by (subst formatAsNdef_loop.simps) (simp add: write4Bytes_pages del: write4Bytes_sends)
  next
    case False
    then show ?thesis
      by (subst formatAsNdef_loop.simps) simp
  qed
qed

lemma wakeup_pages:
  "map page_write_target (sent (wakeup io s)) = map page_write_target (sent s) @ [None, None]"
  by (simp add: wakeup_def split_def Let_def i2cWriteBuffer_def page_write_target_def toUInt8_def)

lemma findPassiveTarget_ndef_pages:
  "map page_write_target (sent (findPassiveTarget_ndef io s))
     = map page_write_target (sent s) @ [None]"
  by (simp add: findPassiveTarget_ndef_def split_def Let_def listTarget_def page_write_target_def
        toUInt8_def)

lemma formatAsNdef_pages:
  assumes "running s" and "targetID (findPassiveTarget_ndef io s) = 1"
  shows "map page_write_target (sent (formatAsNdef io s))
     = map page_write_target (sent s) @ None # map Some [4..0x27]"
proof -
  have "[4..0x27] = 4 # 5 # [6..(0x27 :: int)]"
    by (simp add: upto_rec1)
  then show ?thesis
    using assms
    by (simp add: formatAsNdef_def Let_def formatAsNdef_loop_pages write4Bytes_pages
          findPassiveTarget_ndef_pages del: write4Bytes_sends)
qed

lemma findPassiveTarget_ndef_running [simp]:
  "running (findPassiveTarget_ndef io s) = running s"
  by (simp add: findPassiveTarget_ndef_def split_def Let_def)

lemma writeNDEFText_oversize:
  assumes awake: "running (if \<not> running s then wakeup io s else s)"
    and first: "targetID (findPassiveTarget_ndef io (if \<not> running s then wakeup io s else s)) = 1"
    and second: "targetID (findPassiveTarget_ndef io
          (findPassiveTarget_ndef io (if \<not> running s then wakeup io s else s))) = 1"
    and long: "147 < length charsToWrite"
  shows "map page_write_target (issued s (writeNDEFText io charsToWrite s))
     = (if running s then [] else [None, None]) @ None # None # map Some [4..0x27]"
proof -
  let ?s1 = "if \<not> running s then wakeup io s else s"
  have "writeNDEFText io charsToWrite s = formatAsNdef io (findPassiveTarget_ndef io ?s1)"
    using first long by (simp add: writeNDEFText_def Let_def)
  moreover have "map page_write_target (sent (formatAsNdef io (findPassiveTarget_ndef io ?s1)))
      = map page_write_target (sent ?s1) @ None # None # map Some [4..0x27]"
    using awake second by (simp add: formatAsNdef_pages findPassiveTarget_ndef_pages)
  moreover have "map page_write_target (sent ?s1)
      = map page_write_target (sent s) @ (if running s then [] else [None, None])"
    by (simp add: wakeup_pages)
  ultimately have "map page_write_target (sent (writeNDEFText io charsToWrite s))
      = map page_write_target (sent s)
          @ (if running s then [] else [None, None]) @ None # None # map Some [4..0x27]"
    by simp
  then show ?thesis
    by (simp add: issued_def drop_map [symmetric])
qed

text \<open>
  Claim C5 fails on the code. For a string of 148 characters and a card in the field, the
  trace of \<open>writeNDEFText\<close> holds the wake-up, two discoveries and 36 page writes.
\<close>

theorem writeNDEFText_oversize_formats:
  "map page_write_target
     (issued (power_on (blank_card True [1, 2, 3, 4]))
        (writeNDEFText chip_bus (replicate 148 CHR ''a'') (power_on (blank_card True [1, 2, 3, 4]))))
   = [None, None, None, None] @ map Some [4..0x27]"
proof -
  let ?s = "power_on (blank_card True [1, 2, 3, 4])"
  let ?s1 = "if \<not> running ?s then wakeup chip_bus ?s else ?s"
  have asleep: "\<not> running ?s"
    by (simp add: power_on_def)
  have awake: "running ?s1"
    by code_simp
  have first: "targetID (findPassiveTarget_ndef chip_bus ?s1) = 1"
    by code_simp
  have second: "targetID (findPassiveTarget_ndef chip_bus (findPassiveTarget_ndef chip_bus ?s1)) = 1"
    by code_simp
  have long: "147 < length (replicate 148 CHR ''a'')"
    by simp
  from writeNDEFText_oversize [OF awake first second long] asleep show ?thesis
    by simp
qed


end
